theory Spec2Isabelle
  imports Main
begin

section \<open>Values, errors and object stores\<close>

text \<open>
  The geometry classes of \<^verbatim>\<open>vscode-shim\<close> (the second half of
  \<^verbatim>\<open>protocolCompletionItem.ts\<close>) and the Atom adapter of \<^verbatim>\<open>atom-shim.ts\<close>
  are embedded here. Line and character numbers are JavaScript numbers that the code only
  compares, copies and increments; they are modelled as unbounded integers (\<open>NaN\<close>,
  fractions and the loss of precision above \<open>2^53\<close> are outside the model).

  An exception of the source is a value of type \<open>error\<close>; a function that can throw returns
  \<open>error + 'a\<close> with \<open>Inl\<close> for the exception.
\<close>

datatype error =
    Error string        \<comment> \<open>\<^verbatim>\<open>new Error(message)\<close>\<close>
  | TypeError           \<comment> \<open>a property read on \<^verbatim>\<open>undefined\<close>\<close>
  | HostError string    \<comment> \<open>an exception thrown by the host editor\<close>

text \<open>
  \<^verbatim>\<open>illegalArgument(name?)\<close>: an absent name and the empty string are both falsy.
\<close>

definition illegalArgument :: "string \<Rightarrow> error" where
  "illegalArgument name =
     (if name \<noteq> [] then Error (''Illegal argument: '' @ name) else Error ''Illegal argument'')"

text \<open>
  Several operations return the very object they were given (\<^verbatim>\<open>return this\<close>,
  \<^verbatim>\<open>return position\<close>) or compare objects with \<^verbatim>\<open>===\<close>, and
  \<^verbatim>\<open>WorkspaceEdit\<close> pushes onto an array it shares with its callers. Objects of
  such classes therefore live in a store: a reference is an address, \<^verbatim>\<open>new\<close>
  takes the next free address, and \<^verbatim>\<open>===\<close> is equality of addresses.
\<close>

type_synonym ref = nat

record 'a store =
  cells :: "ref \<Rightarrow> 'a"
  fresh :: ref

definition alloc :: "'a store \<Rightarrow> 'a \<Rightarrow> 'a store \<times> ref" where
  "alloc s v = (s\<lparr>cells := (cells s)(fresh s := v), fresh := Suc (fresh s)\<rparr>, fresh s)"

text \<open>
  The overloaded constructors and the \<^verbatim>\<open>instanceof\<close> guards inspect their arguments
  at run time: an argument is a number, a reference to a \<^verbatim>\<open>Position\<close>, or anything
  else (\<^verbatim>\<open>undefined\<close> when the argument is left out).
\<close>

datatype arg = Num int | Pos ref | Undefined

section \<open>Position\<close>

record Position =
  line :: int
  character :: int

type_synonym positions = "Position store"

abbreviation deref :: "positions \<Rightarrow> ref \<Rightarrow> Position" where
  "deref h p \<equiv> cells h p"

definition new_Position :: "positions \<Rightarrow> int \<Rightarrow> int \<Rightarrow> error + (positions \<times> ref)" where
  "new_Position h l c =
     (if l < 0 then Inl (illegalArgument ''line must be positive'')
      else if c < 0 then Inl (illegalArgument ''character must be positive'')
      else Inr (alloc h \<lparr>line = l, character = c\<rparr>))"

text \<open>The comparisons read the two objects' fields only, so they are functions of the values.\<close>

definition isBefore :: "Position \<Rightarrow> Position \<Rightarrow> bool" where
  "isBefore this other =
     (if line this < line other then True
      else if line other < line this then False
      else character this < character other)"

definition isBeforeOrEqual :: "Position \<Rightarrow> Position \<Rightarrow> bool" where
  "isBeforeOrEqual this other =
     (if line this < line other then True
      else if line other < line this then False
      else character this \<le> character other)"

definition isAfter :: "Position \<Rightarrow> Position \<Rightarrow> bool" where
  "isAfter this other = (\<not> isBeforeOrEqual this other)"

definition isAfterOrEqual :: "Position \<Rightarrow> Position \<Rightarrow> bool" where
  "isAfterOrEqual this other = (\<not> isBefore this other)"

definition isEqual :: "Position \<Rightarrow> Position \<Rightarrow> bool" where
  "isEqual this other = (line this = line other \<and> character this = character other)"

text \<open>
  \<^verbatim>\<open>Position.Min(...positions)\<close> and \<^verbatim>\<open>Position.Max(...positions)\<close>:
  \<^verbatim>\<open>pop()\<close> takes the last argument as the first candidate, the loop runs over
  the others from the left. With no argument \<^verbatim>\<open>pop()\<close> gives
  \<^verbatim>\<open>undefined\<close>, which is returned (\<open>None\<close>).
\<close>

fun Min_loop :: "positions \<Rightarrow> ref list \<Rightarrow> ref \<Rightarrow> ref" where
  "Min_loop h [] result = result"
| "Min_loop h (p # ps) result =
     Min_loop h ps (if isBefore (deref h p) (deref h result) then p else result)"

fun Max_loop :: "positions \<Rightarrow> ref list \<Rightarrow> ref \<Rightarrow> ref" where
  "Max_loop h [] result = result"
| "Max_loop h (p # ps) result =
     Max_loop h ps (if isAfter (deref h p) (deref h result) then p else result)"

definition Position_Min :: "positions \<Rightarrow> ref list \<Rightarrow> ref option" where
  "Position_Min h ps =
     (case rev ps of [] \<Rightarrow> None | result # rest \<Rightarrow> Some (Min_loop h (rev rest) result))"

definition Position_Max :: "positions \<Rightarrow> ref list \<Rightarrow> ref option" where
  "Position_Max h ps =
     (case rev ps of [] \<Rightarrow> None | result # rest \<Rightarrow> Some (Max_loop h (rev rest) result))"

section \<open>Range\<close>

text \<open>
  A \<^verbatim>\<open>Range\<close> holds references to its two \<^verbatim>\<open>Position\<close> objects. No claim
  depends on the identity of a \<^verbatim>\<open>Range\<close> object itself, so a range is the value of
  its two fields.
\<close>

record Range =
  start :: ref
  end' :: ref

text \<open>The last step of the constructor (the \<^verbatim>\<open>if (start.isBefore(end))\<close>).\<close>

definition Range_ordered :: "positions \<Rightarrow> ref \<Rightarrow> ref \<Rightarrow> Range" where
  "Range_ordered h s e =
     (if isBefore (deref h s) (deref h e) then \<lparr>start = s, end' = e\<rparr>
      else \<lparr>start = e, end' = s\<rparr>)"

text \<open>
  The constructor with its two overloads. Four numbers build two new positions (and may
  throw through \<^verbatim>\<open>new Position\<close>); two positions are taken as they are; anything
  else leaves \<^verbatim>\<open>start\<close> or \<^verbatim>\<open>end\<close> undefined and throws.
\<close>

fun new_Range :: "positions \<Rightarrow> arg \<Rightarrow> arg \<Rightarrow> arg \<Rightarrow> arg \<Rightarrow> error + (positions \<times> Range)" where
  "new_Range h (Num sl) (Num sc) (Num el) (Num ec) =
     (case new_Position h sl sc of
        Inl err \<Rightarrow> Inl err
      | Inr (h1, s) \<Rightarrow>
          (case new_Position h1 el ec of
             Inl err \<Rightarrow> Inl err
           | Inr (h2, e) \<Rightarrow> Inr (h2, Range_ordered h2 s e)))"
| "new_Range h (Pos s) (Pos e) c d = Inr (h, Range_ordered h s e)"
| "new_Range h a b c d = Inl (Error ''Invalid arguments'')"

text \<open>
  The methods below call \<^verbatim>\<open>new Range(p, q)\<close> on two positions only; that call is
  the second equation of \<open>new_Range\<close>, which allocates nothing and cannot throw, so they
  use \<open>Range_ordered\<close> directly.
\<close>

definition contains_position :: "positions \<Rightarrow> Range \<Rightarrow> ref \<Rightarrow> bool" where
  "contains_position h this p =
     (if isBefore (deref h p) (deref h (start this)) then False
      else if isBefore (deref h (end' this)) (deref h p) then False
      else True)"

definition contains_range :: "positions \<Rightarrow> Range \<Rightarrow> Range \<Rightarrow> bool" where
  "contains_range h this other =
     (contains_position h this (start other) \<and> contains_position h this (end' other))"

definition Range_isEqual :: "positions \<Rightarrow> Range \<Rightarrow> Range \<Rightarrow> bool" where
  "Range_isEqual h this other =
     (isEqual (deref h (start this)) (deref h (start other)) \<and>
      isEqual (deref h (end' this)) (deref h (end' other)))"

text \<open>
  \<^verbatim>\<open>intersection\<close> returns \<^verbatim>\<open>undefined\<close> (\<open>None\<close>) when there is no
  overlap. A missing result of \<^verbatim>\<open>Position.Max\<close> would make
  \<^verbatim>\<open>start.isAfter\<close> a read on \<^verbatim>\<open>undefined\<close>.
\<close>

definition intersection :: "positions \<Rightarrow> Range \<Rightarrow> Range \<Rightarrow> error + Range option" where
  "intersection h this other =
     (case Position_Max h [start other, start this] of
        None \<Rightarrow> Inl TypeError
      | Some s \<Rightarrow>
          (case Position_Min h [end' other, end' this] of
             None \<Rightarrow> Inl TypeError
           | Some e \<Rightarrow>
               if isAfter (deref h s) (deref h e) then Inr None
               else Inr (Some (Range_ordered h s e))))"

definition union :: "positions \<Rightarrow> Range \<Rightarrow> Range \<Rightarrow> error + Range" where
  "union h this other =
     (if contains_range h this other then Inr this
      else if contains_range h other this then Inr other
      else
        (case Position_Min h [start other, start this] of
           None \<Rightarrow> Inl TypeError
         | Some s \<Rightarrow>
             (case Position_Max h [end' other, end' this] of
                None \<Rightarrow> Inl TypeError
              | Some e \<Rightarrow> Inr (Range_ordered h s e))))"

text \<open>
  \<^verbatim>\<open>with(start = this.start, end = this.end)\<close>: an argument left out
  (\<open>None\<close>) takes the range's own endpoint.
\<close>

definition with' :: "positions \<Rightarrow> Range \<Rightarrow> ref option \<Rightarrow> ref option \<Rightarrow> Range" where
  "with' h this s_arg e_arg =
     (let s = (case s_arg of None \<Rightarrow> start this | Some s \<Rightarrow> s);
          e = (case e_arg of None \<Rightarrow> end' this | Some e \<Rightarrow> e)
      in if isEqual (deref h s) (deref h (start this)) \<and> isEqual (deref h e) (deref h (end' this))
         then this
         else Range_ordered h s e)"

definition isEmpty :: "positions \<Rightarrow> Range \<Rightarrow> bool" where
  "isEmpty h this = isEqual (deref h (start this)) (deref h (end' this))"

text \<open>The class invariant the specification states for every range.\<close>

definition start_le_end :: "positions \<Rightarrow> 'a Range_scheme \<Rightarrow> bool" where
  "start_le_end h r = isBeforeOrEqual (deref h (start r)) (deref h (end' r))"

section \<open>Selection\<close>

text \<open>
  \<^verbatim>\<open>Selection extends Range\<close>: the record extends \<open>Range\<close> by the two fields
  \<^verbatim>\<open>_anchor\<close> and \<^verbatim>\<open>_active\<close>. \<^verbatim>\<open>super(anchor, active)\<close> is the
  \<^verbatim>\<open>Range\<close> constructor on two positions.
\<close>

record Selection = Range +
  anchor :: ref
  active :: ref

definition Selection_init :: "positions \<Rightarrow> ref \<Rightarrow> ref \<Rightarrow> error + (positions \<times> Selection)" where
  "Selection_init h a b =
     (case new_Range h (Pos a) (Pos b) Undefined Undefined of
        Inl err \<Rightarrow> Inl err
      | Inr (h', r) \<Rightarrow> Inr (h', \<lparr>start = start r, end' = end' r, anchor = a, active = b\<rparr>))"

fun new_Selection :: "positions \<Rightarrow> arg \<Rightarrow> arg \<Rightarrow> arg \<Rightarrow> arg \<Rightarrow> error + (positions \<times> Selection)" where
  "new_Selection h (Num al) (Num ac) (Num bl) (Num bc) =
     (case new_Position h al ac of
        Inl err \<Rightarrow> Inl err
      | Inr (h1, a) \<Rightarrow>
          (case new_Position h1 bl bc of
             Inl err \<Rightarrow> Inl err
           | Inr (h2, b) \<Rightarrow> Selection_init h2 a b))"
| "new_Selection h (Pos a) (Pos b) c d = Selection_init h a b"
| "new_Selection h a b c d = Inl (Error ''Invalid arguments'')"

text \<open>\<^verbatim>\<open>this._anchor === this._end\<close>: the same object, not an equal one.\<close>

definition isReversed :: "Selection \<Rightarrow> bool" where
  "isReversed this = (anchor this = end' this)"

section \<open>TextEdit and WorkspaceEdit\<close>

text \<open>
  The setter of \<^verbatim>\<open>range\<close> throws on a falsy value; a \<^verbatim>\<open>Range\<close> object is
  never falsy, so the constructor on a range and a string cannot throw.
\<close>

record TextEdit =
  range' :: Range
  newText :: string

definition new_TextEdit :: "Range \<Rightarrow> string \<Rightarrow> TextEdit" where
  "new_TextEdit r t = \<lparr>range' = r, newText = t\<rparr>"

text \<open>
  Modelled from the spec: the resource identifier (class \<^verbatim>\<open>URI\<close> of
  \<^verbatim>\<open>./uri\<close>, which is not among the sources) is a type "offering at least
  \<^verbatim>\<open>toString()\<close> (canonical key)". A \<^verbatim>\<open>Uri\<close> object is its identity and
  the string \<^verbatim>\<open>toString()\<close> returns; two objects may have the same string.
\<close>

record Uri =
  uri_object :: ref
  toString :: string

text \<open>
  \<^verbatim>\<open>_values\<close> is the array of pairs \<^verbatim>\<open>[uri, edits]\<close> and \<^verbatim>\<open>_index\<close>
  the object from keys to positions in that array. The \<^verbatim>\<open>TextEdit[]\<close> arrays are
  shared with the callers (\<^verbatim>\<open>set\<close> stores the array it is given, \<^verbatim>\<open>get\<close>
  hands the stored array out, \<^verbatim>\<open>replace\<close> pushes onto it), so they live in a store
  and a pair holds the array's reference.
\<close>

type_synonym arrays = "TextEdit list store"

record WorkspaceEdit =
  values' :: "(Uri \<times> ref) list"
  index' :: "string \<rightharpoonup> nat"

definition new_WorkspaceEdit :: WorkspaceEdit where
  "new_WorkspaceEdit = \<lparr>values' = [], index' = Map.empty\<rparr>"

definition has :: "WorkspaceEdit \<Rightarrow> Uri \<Rightarrow> bool" where
  "has this uri = (index' this (toString uri) \<noteq> None)"

text \<open>
  \<^verbatim>\<open>this._values[idx][1]\<close> with \<^verbatim>\<open>idx\<close> outside the array is a property
  access on \<^verbatim>\<open>undefined\<close>.
\<close>

definition set' :: "WorkspaceEdit \<Rightarrow> Uri \<Rightarrow> ref \<Rightarrow> error + WorkspaceEdit" where
  "set' this uri edits =
     (case index' this (toString uri) of
        None \<Rightarrow>
          (let newLen = length (values' this @ [(uri, edits)])
           in Inr (this\<lparr>values' := values' this @ [(uri, edits)],
                        index' := (index' this)(toString uri \<mapsto> newLen - 1)\<rparr>))
      | Some idx \<Rightarrow>
          if idx < length (values' this)
          then Inr (this\<lparr>values' := (values' this)[idx := (fst (values' this ! idx), edits)]\<rparr>)
          else Inl TypeError)"

text \<open>
  \<^verbatim>\<open>get\<close> returns \<^verbatim>\<open>typeof idx !== 'undefined' && this._values[idx][1]\<close>:
  the boolean \<^verbatim>\<open>false\<close> for an unknown key, the stored array otherwise.
\<close>

datatype get_result = False' | Array ref

definition get :: "WorkspaceEdit \<Rightarrow> Uri \<Rightarrow> error + get_result" where
  "get this uri =
     (case index' this (toString uri) of
        None \<Rightarrow> Inr False'
      | Some idx \<Rightarrow>
          if idx < length (values' this) then Inr (Array (snd (values' this ! idx)))
          else Inl TypeError)"

text \<open>
  \<^verbatim>\<open>replace\<close>: an array is truthy even when empty, so \<^verbatim>\<open>if (array)\<close>
  separates a stored array from \<^verbatim>\<open>false\<close>. \<^verbatim>\<open>array.push(edit)\<close> changes
  the stored array in place; \<^verbatim>\<open>[edit]\<close> is a new array.
\<close>

definition replace :: "arrays \<times> WorkspaceEdit \<Rightarrow> Uri \<Rightarrow> Range \<Rightarrow> string \<Rightarrow> error + (arrays \<times> WorkspaceEdit)" where
  "replace st uri r t =
     (let (A, this) = st; edit = new_TextEdit r t in
      case get this uri of
        Inl err \<Rightarrow> Inl err
      | Inr (Array a) \<Rightarrow> Inr (A\<lparr>cells := (cells A)(a := cells A a @ [edit])\<rparr>, this)
      | Inr False' \<Rightarrow>
          (let (A', a) = alloc A [edit] in
           case set' this uri a of
             Inl err \<Rightarrow> Inl err
           | Inr this' \<Rightarrow> Inr (A', this')))"

definition insert' :: "positions \<Rightarrow> arrays \<times> WorkspaceEdit \<Rightarrow> Uri \<Rightarrow> ref \<Rightarrow> string \<Rightarrow> error + (arrays \<times> WorkspaceEdit)" where
  "insert' h st resource position t = replace st resource (Range_ordered h position position) t"

definition delete' :: "arrays \<times> WorkspaceEdit \<Rightarrow> Uri \<Rightarrow> Range \<Rightarrow> error + (arrays \<times> WorkspaceEdit)" where
  "delete' st resource r = replace st resource r []"

definition entries :: "WorkspaceEdit \<Rightarrow> (Uri \<times> ref) list" where
  "entries this = values' this"

definition size' :: "WorkspaceEdit \<Rightarrow> nat" where
  "size' this = length (values' this)"

text \<open>
  A client of a \<^verbatim>\<open>WorkspaceEdit\<close> reaches its state through the public methods only
  (both fields are private). \<open>run\<close> applies a sequence of such calls, stopping at the first
  exception.
\<close>

datatype call =
    Set Uri ref
  | Replace Uri Range string
  | Insert Uri ref string
  | Delete Uri Range

fun call_uri :: "call \<Rightarrow> Uri" where
  "call_uri (Set u a) = u"
| "call_uri (Replace u r t) = u"
| "call_uri (Insert u p t) = u"
| "call_uri (Delete u r) = u"

fun apply_call :: "positions \<Rightarrow> arrays \<times> WorkspaceEdit \<Rightarrow> call \<Rightarrow> error + (arrays \<times> WorkspaceEdit)" where
  "apply_call h (A, this) (Set u a) =
     (case set' this u a of Inl err \<Rightarrow> Inl err | Inr this' \<Rightarrow> Inr (A, this'))"
| "apply_call h st (Replace u r t) = replace st u r t"
| "apply_call h st (Insert u p t) = insert' h st u p t"
| "apply_call h st (Delete u r) = delete' st u r"

fun run :: "positions \<Rightarrow> arrays \<times> WorkspaceEdit \<Rightarrow> call list \<Rightarrow> error + (arrays \<times> WorkspaceEdit)" where
  "run h st [] = Inr st"
| "run h st (c # cs) =
     (case apply_call h st c of Inl err \<Rightarrow> Inl err | Inr st' \<Rightarrow> run h st' cs)"

text \<open>The keys (canonical strings) a sequence of calls touches.\<close>

definition touched :: "call list \<Rightarrow> string set" where
  "touched cs = set (map (\<lambda>c. toString (call_uri c)) cs)"

section \<open>The Atom adapter\<close>

text \<open>
  \<^verbatim>\<open>TextBuffer.Point\<close> is the host's coordinate pair. \<^verbatim>\<open>convertToPosition\<close>
  builds a new \<^verbatim>\<open>Position\<close> (and throws with it on a negative component).
\<close>

record Point =
  row :: int
  column :: int

definition convertToPosition :: "positions \<Rightarrow> Point \<Rightarrow> error + (positions \<times> ref)" where
  "convertToPosition h point = new_Position h (row point) (column point)"

definition convertFromPosition :: "Position \<Rightarrow> Point" where
  "convertFromPosition position = \<lparr>row = line position, column = character position\<rparr>"

text \<open>
  The host's buffer (\<^verbatim>\<open>this.editor.getBuffer()\<close>, of the package
  \<^verbatim>\<open>text-buffer\<close>) is not part of the repository. The adapter is modelled over
  any buffer: the record holds what the buffer answers to the three queries the
  operations below make.
\<close>

record TextBuffer =
  getLines :: "string list"
  characterIndexForPosition :: "Point \<Rightarrow> error + int"
  positionForCharacterIndex :: "int \<Rightarrow> Point"

definition offsetAt :: "TextBuffer \<Rightarrow> positions \<Rightarrow> ref \<Rightarrow> error + int" where
  "offsetAt buffer h position =
     characterIndexForPosition buffer (convertFromPosition (deref h position))"

definition positionAt :: "TextBuffer \<Rightarrow> positions \<Rightarrow> int \<Rightarrow> error + (positions \<times> ref)" where
  "positionAt buffer h offset =
     convertToPosition h (positionForCharacterIndex buffer offset)"

text \<open>
  \<^verbatim>\<open>validatePosition\<close>: the three local variables \<^verbatim>\<open>line\<close>,
  \<^verbatim>\<open>character\<close> and \<^verbatim>\<open>hasChanged\<close> after the clamping, then the final
  \<^verbatim>\<open>return\<close>. With no line at all, \<^verbatim>\<open>lines[line]\<close> is
  \<^verbatim>\<open>lines[-1]\<close>, which is \<^verbatim>\<open>undefined\<close>, and reading its length throws.
\<close>

definition clamp :: "string list \<Rightarrow> int \<Rightarrow> int \<Rightarrow> error + (int \<times> int \<times> bool)" where
  "clamp lines l c =
     (if l < 0 then Inr (0, 0, True)
      else if l \<ge> int (length lines) then
        (let l' = int (length lines) - 1 in
         if l' < 0 then Inl TypeError
         else Inr (l', int (length (lines ! nat l')), True))
      else
        (let maxCharacter = int (length (lines ! nat l)) in
         if c < 0 then Inr (l, 0, True)
         else if c > maxCharacter then Inr (l, maxCharacter, True)
         else Inr (l, c, False)))"

definition validatePosition :: "TextBuffer \<Rightarrow> positions \<Rightarrow> arg \<Rightarrow> error + (positions \<times> ref)" where
  "validatePosition buffer h a =
     (case a of
        Pos position \<Rightarrow>
          (case clamp (getLines buffer) (line (deref h position)) (character (deref h position)) of
             Inl err \<Rightarrow> Inl err
           | Inr (l, c, hasChanged) \<Rightarrow>
               if \<not> hasChanged then Inr (h, position) else new_Position h l c)
      | _ \<Rightarrow> Inl (Error ''Invalid argument''))"

text \<open>The positions that need no clamping.\<close>

definition in_bounds :: "string list \<Rightarrow> Position \<Rightarrow> bool" where
  "in_bounds lines p =
     (0 \<le> line p \<and> line p < int (length lines) \<and>
      0 \<le> character p \<and> character p \<le> int (length (lines ! nat (line p))))"

subsection \<open>A host buffer\<close>

text \<open>
  Modelled from the spec: the host's conversions between a point and a character index
  are not among the sources. The specification describes them as the conversion of "a
  structured position to a flat character offset into the whole-document text" and its
  inverse, which "for an offset beyond the document end, clamps to the last valid
  position; for a negative offset, clamps to (0,0)". The lines of a text are its pieces
  between line feeds; a line feed counts as one character. What the host answers for a
  point outside the text is the parameter \<open>outside\<close>; the host that clips such a point
  is defined next.
\<close>

fun split_lines :: "string \<Rightarrow> string list" where
  "split_lines [] = [[]]"
| "split_lines (c # cs) =
     (if c = CHR 0x0A then [] # split_lines cs
      else (case split_lines cs of [] \<Rightarrow> [[c]] | l # ls \<Rightarrow> (c # l) # ls))"

definition valid_point :: "string list \<Rightarrow> Point \<Rightarrow> bool" where
  "valid_point lines pt =
     (0 \<le> row pt \<and> row pt < int (length lines) \<and>
      0 \<le> column pt \<and> column pt \<le> int (length (lines ! nat (row pt))))"

definition flat_offset :: "string list \<Rightarrow> Point \<Rightarrow> int" where
  "flat_offset lines pt =
     (\<Sum>l\<leftarrow>take (nat (row pt)) lines. int (length l) + 1) + column pt"

fun point_at :: "string list \<Rightarrow> int \<Rightarrow> int \<Rightarrow> Point" where
  "point_at [] r off = \<lparr>row = r, column = 0\<rparr>"
| "point_at [l] r off = \<lparr>row = r, column = min off (int (length l))\<rparr>"
| "point_at (l # ls) r off =
     (if off \<le> int (length l) then \<lparr>row = r, column = off\<rparr>
      else point_at ls (r + 1) (off - int (length l) - 1))"

definition buffer_of :: "(Point \<Rightarrow> error + int) \<Rightarrow> string \<Rightarrow> TextBuffer" where
  "buffer_of outside text =
     \<lparr>getLines = split_lines text,
      characterIndexForPosition =
        (\<lambda>pt. if valid_point (split_lines text) pt then Inr (flat_offset (split_lines text) pt)
              else outside pt),
      positionForCharacterIndex =
        (\<lambda>off. if off < 0 then \<lparr>row = 0, column = 0\<rparr> else point_at (split_lines text) 0 off)\<rparr>"

text \<open>
  Modelled from the spec: what the host answers for a point outside the text. The source
  of \<^verbatim>\<open>offsetAt\<close> leaves such a point to the host, and the specification says of
  that operation that "out-of-range positions never throw here -- they clamp", by the
  policy it gives for \<^verbatim>\<open>validatePosition\<close>: a negative line gives (0,0), a line at or
  beyond the line count gives the end of the last line, otherwise the character is brought
  into the line. \<open>clipPosition\<close> is that policy on the host's points (a buffer always has
  a line; the first case only makes the function total), and \<open>text_buffer\<close> is the host
  that clips a point before it converts it.
\<close>

definition clipPosition :: "string list \<Rightarrow> Point \<Rightarrow> Point" where
  "clipPosition lines pt =
     (if lines = [] then \<lparr>row = 0, column = 0\<rparr>
      else if row pt < 0 then \<lparr>row = 0, column = 0\<rparr>
      else if int (length lines) \<le> row pt then
        \<lparr>row = int (length lines) - 1, column = int (length (last lines))\<rparr>
      else \<lparr>row = row pt,
            column = min (max (column pt) 0) (int (length (lines ! nat (row pt))))\<rparr>)"

definition text_buffer :: "string \<Rightarrow> TextBuffer" where
  "text_buffer text =
     buffer_of (\<lambda>pt. Inr (flat_offset (split_lines text) (clipPosition (split_lines text) pt)))
       text"

text \<open>The document \<^verbatim>\<open>"abc\ndef"\<close>.\<close>

definition abc_def :: string where
  "abc_def = ''abc'' @ [CHR 0x0A] @ ''def''"

subsection \<open>Version and save\<close>

text \<open>
  The host drives the adapter through notifications. The constructor sets
  \<^verbatim>\<open>version\<close> to 1 and registers two listeners: the one on changes runs
  \<^verbatim>\<open>this.version++\<close>, the one on destruction disposes of the first. A listener
  that was disposed of is no longer called.
\<close>

datatype host_event = DidChange | DidSave | DidDestroy

record AtomTextDocument =
  version :: int
  changeListener :: bool

definition new_AtomTextDocument :: AtomTextDocument where
  "new_AtomTextDocument = \<lparr>version = 1, changeListener = True\<rparr>"

fun notify :: "AtomTextDocument \<Rightarrow> host_event \<Rightarrow> AtomTextDocument" where
  "notify d DidChange = (if changeListener d then d\<lparr>version := version d + 1\<rparr> else d)"
| "notify d DidDestroy = d\<lparr>changeListener := False\<rparr>"
| "notify d DidSave = d"

definition notify_all :: "AtomTextDocument \<Rightarrow> host_event list \<Rightarrow> AtomTextDocument" where
  "notify_all d es = foldl notify d es"

text \<open>
  \<^verbatim>\<open>save()\<close> returns a promise. Its executor registers a listener on the host's
  save notification and calls \<^verbatim>\<open>this.editor.save()\<close>; the listener disposes of
  itself and resolves the promise with \<^verbatim>\<open>true\<close>. A promise settles once; an
  exception thrown inside the executor rejects it. What the host does is the input: the
  notifications it delivers while \<^verbatim>\<open>editor.save()\<close> runs, the exception that call
  throws (if any), and the notifications it delivers afterwards.
\<close>

datatype 'a promise = Pending | Resolved 'a | Rejected error

definition resolve :: "'a \<Rightarrow> 'a promise \<Rightarrow> 'a promise" where
  "resolve v p = (case p of Pending \<Rightarrow> Resolved v | _ \<Rightarrow> p)"

definition reject :: "error \<Rightarrow> 'a promise \<Rightarrow> 'a promise" where
  "reject e p = (case p of Pending \<Rightarrow> Rejected e | _ \<Rightarrow> p)"

record SaveRequest =
  promise :: "bool promise"
  saveListener :: bool

fun save_notify :: "SaveRequest \<Rightarrow> host_event \<Rightarrow> SaveRequest" where
  "save_notify s DidSave =
     (if saveListener s then s\<lparr>saveListener := False, promise := resolve True (promise s)\<rparr>
      else s)"
| "save_notify s DidChange = s"
| "save_notify s DidDestroy = s"

definition save :: "host_event list \<Rightarrow> error option \<Rightarrow> host_event list \<Rightarrow> SaveRequest" where
  "save during thrown after =
     (let s0 = \<lparr>promise = Pending, saveListener = True\<rparr>;
          s1 = foldl save_notify s0 during;
          s2 = (case thrown of None \<Rightarrow> s1 | Some e \<Rightarrow> s1\<lparr>promise := reject e (promise s1)\<rparr>)
      in foldl save_notify s2 after)"

section \<open>Notions used to state the properties\<close>

text \<open>
  Two optional ranges are the same result when both are absent or both are present and
  equal by \<^verbatim>\<open>Range.isEqual\<close>.
\<close>

fun same_result :: "positions \<Rightarrow> Range option \<Rightarrow> Range option \<Rightarrow> bool" where
  "same_result h None None = True"
| "same_result h (Some r) (Some r') = Range_isEqual h r r'"
| "same_result h x y = False"

text \<open>What \<^verbatim>\<open>Position.Max\<close> and \<^verbatim>\<open>Position.Min\<close> return on two arguments.\<close>

definition later :: "positions \<Rightarrow> ref \<Rightarrow> ref \<Rightarrow> ref" where
  "later h a b = (if isAfter (deref h a) (deref h b) then a else b)"

definition earlier :: "positions \<Rightarrow> ref \<Rightarrow> ref \<Rightarrow> ref" where
  "earlier h a b = (if isBefore (deref h a) (deref h b) then a else b)"

text \<open>A store of four positions: (0,0), (0,5), (0,6) and (0,10) at the references 0 to 3.\<close>

definition four_positions :: positions where
  "four_positions =
     \<lparr>cells = (\<lambda>a. if a = 0 then \<lparr>line = 0, character = 0\<rparr>
                    else if a = 1 then \<lparr>line = 0, character = 5\<rparr>
                    else if a = 2 then \<lparr>line = 0, character = 6\<rparr>
                    else \<lparr>line = 0, character = 10\<rparr>),
      fresh = 4\<rparr>"

text \<open>
  The document \<^verbatim>\<open>"abc\ndef"\<close> in the host that clips, and a store of two
  positions: (5,0), which is outside that document, at reference 0 and (1,2) at
  reference 1.
\<close>

definition abc_def_buffer :: TextBuffer where
  "abc_def_buffer = text_buffer abc_def"

definition two_positions :: positions where
  "two_positions =
     \<lparr>cells = (\<lambda>a. if a = 0 then \<lparr>line = 5, character = 0\<rparr> else \<lparr>line = 1, character = 2\<rparr>),
      fresh = 2\<rparr>"

text \<open>
  The key of an entry of \<^verbatim>\<open>_values\<close>, and the invariant that ties
  \<^verbatim>\<open>_index\<close> to \<^verbatim>\<open>_values\<close>: the index maps exactly the keys of the
  entries to their places.
\<close>

definition key :: "Uri \<times> ref \<Rightarrow> string" where
  "key e = toString (fst e)"

definition keys :: "WorkspaceEdit \<Rightarrow> string list" where
  "keys w = map key (values' w)"

definition index_ok :: "WorkspaceEdit \<Rightarrow> bool" where
  "index_ok w \<longleftrightarrow>
     (\<forall>k i. index' w k = Some i \<longrightarrow> i < length (values' w) \<and> key (values' w ! i) = k) \<and>
     (\<forall>i < length (values' w). index' w (key (values' w ! i)) = Some i)"

text \<open>A store with no array yet, and two resources.\<close>

definition no_arrays :: arrays where
  "no_arrays = \<lparr>cells = (\<lambda>a. []), fresh = 0\<rparr>"

definition file_a :: Uri where
  "file_a = \<lparr>uri_object = 0, toString = ''file:///a''\<rparr>"

definition file_b :: Uri where
  "file_b = \<lparr>uri_object = 1, toString = ''file:///b''\<rparr>"

section \<open>Properties of the geometry\<close>

subsection \<open>The order on positions\<close>

lemma isBefore_iff:
  "isBefore p q \<longleftrightarrow> line p < line q \<or> (line p = line q \<and> character p < character q)"
  by (auto simp: isBefore_def)

lemma isBeforeOrEqual_iff:
  "isBeforeOrEqual p q \<longleftrightarrow> line p < line q \<or> (line p = line q \<and> character p \<le> character q)"
  by (auto simp: isBeforeOrEqual_def)

lemmas order_defs = isBefore_iff isBeforeOrEqual_iff isAfter_def isAfterOrEqual_def isEqual_def

lemma isBefore_le: "isBefore p q \<Longrightarrow> isBeforeOrEqual p q"
  by (cases p; cases q) (auto simp: order_defs)

lemma not_isBefore_le: "\<not> isBefore p q \<Longrightarrow> isBeforeOrEqual q p"
  by (cases p; cases q) (auto simp: order_defs)

lemma isBefore_asym: "isBefore p q \<Longrightarrow> \<not> isBefore q p"
  by (cases p; cases q) (auto simp: order_defs)

lemma isBefore_irrefl: "\<not> isBefore p p"
  by (simp add: isBefore_def)

lemma later_value_commutes:
  "isEqual (if isAfter a b then a else b) (if isAfter b a then b else a)"
  by (cases a; cases b) (auto simp: order_defs)

lemma earlier_value_commutes:
  "isEqual (if isBefore a b then a else b) (if isBefore b a then b else a)"
  by (cases a; cases b) (auto simp: order_defs)

lemma isAfter_cong:
  "isEqual p p' \<Longrightarrow> isEqual q q' \<Longrightarrow> isAfter p q = isAfter p' q'"
  by (cases p; cases p'; cases q; cases q') (auto simp: order_defs)

lemma ordered_value_cong:
  "isEqual s s' \<Longrightarrow> isEqual e e' \<Longrightarrow>
   isEqual (if isBefore s e then s else e) (if isBefore s' e' then s' else e') \<and>
   isEqual (if isBefore s e then e else s) (if isBefore s' e' then e' else s')"
  by (cases s; cases s'; cases e; cases e') (auto simp: order_defs)

lemma touching_later:
  "isBeforeOrEqual sa ea \<Longrightarrow> isEqual ea sb \<Longrightarrow> isEqual (if isAfter sb sa then sb else sa) ea"
  by (cases sa; cases ea; cases sb) (auto simp: order_defs)

lemma touching_earlier:
  "isBeforeOrEqual sb eb \<Longrightarrow> isEqual ea sb \<Longrightarrow> isEqual (if isBefore eb ea then eb else ea) ea"
  by (cases sb; cases eb; cases ea) (auto simp: order_defs)

lemma equal_not_after:
  "isEqual s x \<Longrightarrow> isEqual e x \<Longrightarrow> \<not> isAfter s e \<and> \<not> isBefore s e \<and> isEqual e s"
  by (cases s; cases e; cases x) (auto simp: order_defs)

lemma disjoint_after:
  "isAfter sb ea \<Longrightarrow>
   isAfter (if isAfter sb sa then sb else sa) (if isBefore eb ea then eb else ea)"
  by (cases sa; cases sb; cases ea; cases eb) (auto simp: order_defs)

subsection \<open>Ranges\<close>

lemma Position_Max_pair: "Position_Max h [a, b] = Some (later h a b)"
  by (simp add: Position_Max_def later_def)

lemma Position_Min_pair: "Position_Min h [a, b] = Some (earlier h a b)"
  by (simp add: Position_Min_def earlier_def)

lemma deref_later:
  "deref h (later h a b) = (if isAfter (deref h a) (deref h b) then deref h a else deref h b)"
  by (simp add: later_def)

lemma deref_earlier:
  "deref h (earlier h a b) = (if isBefore (deref h a) (deref h b) then deref h a else deref h b)"
  by (simp add: earlier_def)

lemma deref_start_ordered:
  "deref h (start (Range_ordered h s e)) =
     (if isBefore (deref h s) (deref h e) then deref h s else deref h e)"
  by (simp add: Range_ordered_def)

lemma deref_end_ordered:
  "deref h (end' (Range_ordered h s e)) =
     (if isBefore (deref h s) (deref h e) then deref h e else deref h s)"
  by (simp add: Range_ordered_def)

lemma Range_ordered_le: "start_le_end h (Range_ordered h s e)"
  by (simp add: start_le_end_def Range_ordered_def isBefore_le not_isBefore_le)

lemma with_le: "start_le_end h a \<Longrightarrow> start_le_end h (with' h a s e)"
  by (simp add: with'_def Let_def Range_ordered_le)

lemma union_le:
  "start_le_end h a \<Longrightarrow> start_le_end h b \<Longrightarrow> \<exists>r. union h a b = Inr r \<and> start_le_end h r"
  by (simp add: union_def Position_Min_pair Position_Max_pair Range_ordered_le)

lemma intersection_eq:
  "intersection h a b =
     (if isAfter (deref h (later h (start b) (start a))) (deref h (earlier h (end' b) (end' a)))
      then Inr None
      else Inr (Some (Range_ordered h (later h (start b) (start a)) (earlier h (end' b) (end' a)))))"
  by (simp add: intersection_def Position_Min_pair Position_Max_pair)

lemma intersection_le:
  "\<exists>x. intersection h a b = Inr x \<and> (\<forall>r. x = Some r \<longrightarrow> start_le_end h r)"
  by (simp add: intersection_eq Range_ordered_le)

lemma Range_ordered_cong:
  assumes "isEqual (deref h s) (deref h s')" "isEqual (deref h e) (deref h e')"
  shows "Range_isEqual h (Range_ordered h s e) (Range_ordered h s' e')"
  unfolding Range_isEqual_def deref_start_ordered deref_end_ordered
  using assms by (rule ordered_value_cong)

lemma intersection_commutes:
  "\<exists>x y. intersection h a b = Inr x \<and> intersection h b a = Inr y \<and> same_result h x y"
proof -
  let ?s = "later h (start b) (start a)" and ?s' = "later h (start a) (start b)"
  let ?e = "earlier h (end' b) (end' a)" and ?e' = "earlier h (end' a) (end' b)"
  have s: "isEqual (deref h ?s) (deref h ?s')"
    unfolding deref_later by (rule later_value_commutes)
  have e: "isEqual (deref h ?e) (deref h ?e')"
    unfolding deref_earlier by (rule earlier_value_commutes)
  have same: "isAfter (deref h ?s) (deref h ?e) = isAfter (deref h ?s') (deref h ?e')"
    using s e by (rule isAfter_cong)
  show ?thesis
  proof (cases "isAfter (deref h ?s) (deref h ?e)")
    case True
    then show ?thesis using same by (simp add: intersection_eq)
  next
    case False
    then show ?thesis using same Range_ordered_cong [OF s e] by (simp add: intersection_eq)
  qed
qed

lemma intersection_touching:
  assumes "start_le_end h a" "start_le_end h b" "isEqual (deref h (end' a)) (deref h (start b))"
  shows "\<exists>r. intersection h a b = Inr (Some r) \<and> isEmpty h r \<and>
             isEqual (deref h (start r)) (deref h (end' a))"
proof -
  let ?s = "later h (start b) (start a)" and ?e = "earlier h (end' b) (end' a)"
  have s: "isEqual (deref h ?s) (deref h (end' a))"
    unfolding deref_later using assms(1,3) unfolding start_le_end_def by (rule touching_later)
  have e: "isEqual (deref h ?e) (deref h (end' a))"
    unfolding deref_earlier using assms(2,3) unfolding start_le_end_def by (rule touching_earlier)
  note n = equal_not_after [OF s e]
  have "isEmpty h (Range_ordered h ?s ?e)"
    using n by (simp add: isEmpty_def Range_ordered_def)
  moreover have "isEqual (deref h (start (Range_ordered h ?s ?e))) (deref h (end' a))"
    using n e by (simp add: Range_ordered_def)
  ultimately show ?thesis using n by (simp add: intersection_eq)
qed

lemma intersection_disjoint:
  assumes "isAfter (deref h (start b)) (deref h (end' a))"
  shows "intersection h a b = Inr None"
proof -
  have "isAfter (deref h (later h (start b) (start a))) (deref h (earlier h (end' b) (end' a)))"
    unfolding deref_later deref_earlier using assms by (rule disjoint_after)
  then show ?thesis by (simp add: intersection_eq)
qed

lemma Selection_init_eq:
  "Selection_init h a b =
     Inr (h, \<lparr>start = start (Range_ordered h a b), end' = end' (Range_ordered h a b),
              anchor = a, active = b\<rparr>)"
  by (simp add: Selection_init_def)

text \<open>
  C2. The constructor on two positions, in either order, never throws and yields
  \<open>start \<le> end\<close>; on \<open>p1 < p2\<close> both orders yield start \<open>p1\<close> and end \<open>p2\<close>; and
  the ranges that \<^verbatim>\<open>with\<close>, \<^verbatim>\<open>union\<close> and \<^verbatim>\<open>intersection\<close> return
  satisfy \<open>start \<le> end\<close> (for \<^verbatim>\<open>with\<close> and \<^verbatim>\<open>union\<close>, which may return
  the receiver or the argument, given that these do).
\<close>

theorem Range_start_le_end:
  "(\<exists>r. new_Range h (Pos p1) (Pos p2) c d = Inr (h, r) \<and> start_le_end h r) \<and>
   (isBefore (deref h p1) (deref h p2) \<longrightarrow>
      new_Range h (Pos p1) (Pos p2) c d = Inr (h, \<lparr>start = p1, end' = p2\<rparr>) \<and>
      new_Range h (Pos p2) (Pos p1) c d = Inr (h, \<lparr>start = p1, end' = p2\<rparr>)) \<and>
   (start_le_end h a \<longrightarrow> start_le_end h (with' h a s e)) \<and>
   (start_le_end h a \<and> start_le_end h b \<longrightarrow> (\<exists>r. union h a b = Inr r \<and> start_le_end h r)) \<and>
   (\<exists>x. intersection h a b = Inr x \<and> (\<forall>r. x = Some r \<longrightarrow> start_le_end h r))"
proof -
  have ctor: "\<exists>r. new_Range h (Pos p1) (Pos p2) c d = Inr (h, r) \<and> start_le_end h r"
    by (simp add: Range_ordered_le)
  have swap: "isBefore (deref h p1) (deref h p2) \<longrightarrow>
      new_Range h (Pos p1) (Pos p2) c d = Inr (h, \<lparr>start = p1, end' = p2\<rparr>) \<and>
      new_Range h (Pos p2) (Pos p1) c d = Inr (h, \<lparr>start = p1, end' = p2\<rparr>)"
    by (simp add: Range_ordered_def isBefore_asym)
  show ?thesis
    using ctor swap with_le union_le intersection_le by blast
qed

theorem Range_start_le_end_witness:
  "new_Range four_positions (Pos 0) (Pos 1) Undefined Undefined
     = Inr (four_positions, \<lparr>start = 0, end' = 1\<rparr>) \<and>
   new_Range four_positions (Pos 1) (Pos 0) Undefined Undefined
     = Inr (four_positions, \<lparr>start = 0, end' = 1\<rparr>) \<and>
   start_le_end four_positions \<lparr>start = 0, end' = 1\<rparr> \<and>
   start_le_end four_positions (with' four_positions \<lparr>start = 0, end' = 1\<rparr> (Some 3) None) \<and>
   union four_positions \<lparr>start = 0, end' = 1\<rparr> \<lparr>start = 2, end' = 3\<rparr>
     = Inr \<lparr>start = 0, end' = 3\<rparr> \<and>
   start_le_end four_positions \<lparr>start = 0, end' = 3\<rparr>"
  using Range_start_le_end [of four_positions 0 1 Undefined Undefined
      "\<lparr>start = 0, end' = 1\<rparr>" "Some 3" None "\<lparr>start = 2, end' = 3\<rparr>"]
  by (simp add: four_positions_def start_le_end_def with'_def union_def contains_range_def
      contains_position_def Position_Min_def Position_Max_def Range_ordered_def order_defs)

text \<open>
  C4. \<^verbatim>\<open>a.intersection(b)\<close> and \<^verbatim>\<open>b.intersection(a)\<close> are both absent or
  geometrically equal; ranges that touch (\<open>a.end = b.start\<close>) intersect in the empty range
  at that point; ranges with \<open>a.end < b.start\<close> have no intersection. The witness
  evaluates the ranges of the claim: [0,0]-[0,5] with [0,5]-[0,10], and with [0,6]-[0,10].
\<close>

theorem intersection_symmetric:
  "(\<exists>x y. intersection h a b = Inr x \<and> intersection h b a = Inr y \<and> same_result h x y) \<and>
   (start_le_end h a \<and> start_le_end h b \<and> isEqual (deref h (end' a)) (deref h (start b)) \<longrightarrow>
      (\<exists>r. intersection h a b = Inr (Some r) \<and> isEmpty h r \<and>
           isEqual (deref h (start r)) (deref h (end' a)))) \<and>
   (isAfter (deref h (start b)) (deref h (end' a)) \<longrightarrow> intersection h a b = Inr None)"
  using intersection_commutes intersection_touching intersection_disjoint by blast

theorem intersection_symmetric_witness:
  "intersection four_positions \<lparr>start = 0, end' = 1\<rparr> \<lparr>start = 1, end' = 3\<rparr>
     = Inr (Some \<lparr>start = 1, end' = 1\<rparr>) \<and>
   intersection four_positions \<lparr>start = 1, end' = 3\<rparr> \<lparr>start = 0, end' = 1\<rparr>
     = Inr (Some \<lparr>start = 1, end' = 1\<rparr>) \<and>
   deref four_positions 1 = \<lparr>line = 0, character = 5\<rparr> \<and>
   intersection four_positions \<lparr>start = 0, end' = 1\<rparr> \<lparr>start = 2, end' = 3\<rparr> = Inr None \<and>
   intersection four_positions \<lparr>start = 2, end' = 3\<rparr> \<lparr>start = 0, end' = 1\<rparr> = Inr None"
  using intersection_symmetric [of four_positions "\<lparr>start = 0, end' = 1\<rparr>" "\<lparr>start = 1, end' = 3\<rparr>"]
    intersection_symmetric [of four_positions "\<lparr>start = 0, end' = 1\<rparr>" "\<lparr>start = 2, end' = 3\<rparr>"]
  by (simp add: four_positions_def intersection_def Position_Min_def Position_Max_def
      Range_ordered_def order_defs)

text \<open>
  C7. A selection built from two positions reports them as \<^verbatim>\<open>anchor\<close> and
  \<^verbatim>\<open>active\<close>; its \<^verbatim>\<open>start\<close> and \<^verbatim>\<open>end\<close> are the same two objects
  in order; \<^verbatim>\<open>isReversed\<close> holds exactly when the anchor is the end point, that is
  when the anchor is not before the active position (so also when the two are equal).
\<close>

theorem Selection_endpoints:
  "\<exists>s. new_Selection h (Pos a) (Pos b) c d = Inr (h, s) \<and>
       anchor s = a \<and> active s = b \<and>
       ((start s = a \<and> end' s = b) \<or> (start s = b \<and> end' s = a)) \<and>
       start_le_end h s \<and>
       (isReversed s \<longleftrightarrow> isEqual (deref h a) (deref h (end' s))) \<and>
       (isReversed s \<longleftrightarrow> \<not> isBefore (deref h a) (deref h b))"
proof (cases "isBefore (deref h a) (deref h b)")
  case True
  then have "a \<noteq> b" using isBefore_irrefl by auto
  moreover have "\<not> isEqual (deref h a) (deref h b)"
    using True by (cases "deref h a"; cases "deref h b") (auto simp: order_defs)
  ultimately show ?thesis
    using True
    by (simp add: Selection_init_eq Range_ordered_def start_le_end_def isReversed_def isBefore_le)
next
  case False
  then show ?thesis
    by (simp add: Selection_init_eq Range_ordered_def start_le_end_def isReversed_def
        not_isBefore_le isEqual_def)
qed

theorem Selection_endpoints_witness:
  "new_Selection four_positions (Pos 3) (Pos 1) Undefined Undefined
     = Inr (four_positions, \<lparr>start = 1, end' = 3, anchor = 3, active = 1\<rparr>) \<and>
   isReversed \<lparr>start = 1, end' = 3, anchor = 3, active = 1\<rparr> \<and>
   new_Selection four_positions (Pos 1) (Pos 3) Undefined Undefined
     = Inr (four_positions, \<lparr>start = 1, end' = 3, anchor = 1, active = 3\<rparr>) \<and>
   \<not> isReversed \<lparr>start = 1, end' = 3, anchor = 1, active = 3\<rparr>"
  using Selection_endpoints [of four_positions 3 1 Undefined Undefined]
    Selection_endpoints [of four_positions 1 3 Undefined Undefined]
  by (simp add: Selection_init_eq Range_ordered_def isReversed_def order_defs four_positions_def)

section \<open>Properties of the adapter\<close>

subsection \<open>validatePosition\<close>

lemma split_lines_abc_def: "split_lines abc_def = [''abc'', ''def'']"
  by (simp add: abc_def_def)

lemma getLines_buffer_of: "getLines (buffer_of outside text) = split_lines text"
  by (simp add: buffer_of_def)

lemma clamp_negative_line: "l < 0 \<Longrightarrow> clamp lines l c = Inr (0, 0, True)"
  by (simp add: clamp_def)

lemma clamp_beyond_last:
  assumes "lines \<noteq> []" "int (length lines) \<le> l"
  shows "clamp lines l c = Inr (int (length lines) - 1, int (length (last lines)), True)"
proof -
  have "nat (int (length lines) - 1) = length lines - 1" by simp
  moreover have "0 < length lines" using assms(1) by simp
  ultimately show ?thesis
    using assms by (simp add: clamp_def Let_def last_conv_nth)
qed

lemma clamp_negative_character:
  "0 \<le> l \<Longrightarrow> l < int (length lines) \<Longrightarrow> c < 0 \<Longrightarrow> clamp lines l c = Inr (l, 0, True)"
  by (simp add: clamp_def Let_def)

lemma clamp_beyond_line:
  "0 \<le> l \<Longrightarrow> l < int (length lines) \<Longrightarrow> int (length (lines ! nat l)) < c \<Longrightarrow>
   clamp lines l c = Inr (l, int (length (lines ! nat l)), True)"
  by (simp add: clamp_def Let_def)

lemma clamp_in_bounds:
  "in_bounds lines p \<Longrightarrow> clamp lines (line p) (character p) = Inr (line p, character p, False)"
  by (simp add: clamp_def Let_def in_bounds_def)

lemma validatePosition_in_bounds:
  assumes "in_bounds (getLines buffer) (deref h p)"
  shows "validatePosition buffer h (Pos p) = Inr (h, p)"
  using clamp_in_bounds [OF assms] by (simp add: validatePosition_def)

lemma validatePosition_changed:
  assumes "clamp (getLines buffer) (line (deref h p)) (character (deref h p)) = Inr (l, c, True)"
    and "0 \<le> l" "0 \<le> c" "in_bounds (getLines buffer) \<lparr>line = l, character = c\<rparr>"
  shows "\<exists>h'. validatePosition buffer h (Pos p) = Inr (h', fresh h) \<and>
              deref h' (fresh h) = \<lparr>line = l, character = c\<rparr> \<and>
              validatePosition buffer h' (Pos (fresh h)) = Inr (h', fresh h)"
proof -
  let ?h' = "fst (alloc h \<lparr>line = l, character = c\<rparr>)"
  have v: "validatePosition buffer h (Pos p) = Inr (?h', fresh h)"
    using assms(1-3) by (simp add: validatePosition_def new_Position_def alloc_def)
  have d: "deref ?h' (fresh h) = \<lparr>line = l, character = c\<rparr>"
    by (simp add: alloc_def)
  have "in_bounds (getLines buffer) (deref ?h' (fresh h))"
    using assms(4) d by simp
  then have "validatePosition buffer ?h' (Pos (fresh h)) = Inr (?h', fresh h)"
    by (rule validatePosition_in_bounds)
  then show ?thesis using v d by blast
qed

text \<open>
  Why the buffer must have a line: on an empty array of lines a position with a
  non-negative line makes the source read \<^verbatim>\<open>lines[-1].length\<close>. And an argument
  that is not a \<^verbatim>\<open>Position\<close> is refused.
\<close>

lemma validatePosition_no_lines:
  assumes "getLines buffer = []" "0 \<le> line (deref h p)"
  shows "validatePosition buffer h (Pos p) = Inl TypeError"
  using assms by (simp add: validatePosition_def clamp_def)

lemma validatePosition_not_a_position:
  "validatePosition buffer h (Num n) = Inl (Error ''Invalid argument'') \<and>
   validatePosition buffer h Undefined = Inl (Error ''Invalid argument'')"
  by (simp add: validatePosition_def)

text \<open>
  C1. On a buffer with at least one line (a buffer of the host always has one),
  \<^verbatim>\<open>validatePosition\<close> does not throw and clamps in the order of the source: a
  negative line gives (0,0); a line at or beyond the line count gives the end of the last
  line; otherwise a negative character gives 0 and a character beyond the line's length
  gives that length. A position that is in bounds is returned as the same object, with no
  allocation; and validating the result again returns that result, the same object.
\<close>

theorem validatePosition_clamps:
  assumes "getLines buffer \<noteq> []"
  shows "\<exists>h' q. validatePosition buffer h (Pos p) = Inr (h', q) \<and>
     (line (deref h p) < 0 \<longrightarrow> deref h' q = \<lparr>line = 0, character = 0\<rparr>) \<and>
     (int (length (getLines buffer)) \<le> line (deref h p) \<longrightarrow>
        deref h' q = \<lparr>line = int (length (getLines buffer)) - 1,
                       character = int (length (last (getLines buffer)))\<rparr>) \<and>
     (0 \<le> line (deref h p) \<and> line (deref h p) < int (length (getLines buffer)) \<and>
      character (deref h p) < 0 \<longrightarrow>
        deref h' q = \<lparr>line = line (deref h p), character = 0\<rparr>) \<and>
     (0 \<le> line (deref h p) \<and> line (deref h p) < int (length (getLines buffer)) \<and>
      int (length (getLines buffer ! nat (line (deref h p)))) < character (deref h p) \<longrightarrow>
        deref h' q = \<lparr>line = line (deref h p),
                       character = int (length (getLines buffer ! nat (line (deref h p))))\<rparr>) \<and>
     (in_bounds (getLines buffer) (deref h p) \<longrightarrow> h' = h \<and> q = p) \<and>
     validatePosition buffer h' (Pos q) = Inr (h', q)"
proof -
  let ?ls = "getLines buffer" and ?l = "line (deref h p)" and ?c = "character (deref h p)"
  have n: "0 < length ?ls" using assms by simp
  consider (neg) "?l < 0" | (beyond) "int (length ?ls) \<le> ?l"
    | (cneg) "0 \<le> ?l" "?l < int (length ?ls)" "?c < 0"
    | (cbig) "0 \<le> ?l" "?l < int (length ?ls)" "int (length (?ls ! nat ?l)) < ?c"
    | (ok) "0 \<le> ?l" "?l < int (length ?ls)" "0 \<le> ?c" "?c \<le> int (length (?ls ! nat ?l))"
    by linarith
  then show ?thesis
  proof cases
    case neg
    have "in_bounds ?ls \<lparr>line = 0, character = 0\<rparr>"
      using n by (simp add: in_bounds_def)
    then obtain h' where "validatePosition buffer h (Pos p) = Inr (h', fresh h)"
      "deref h' (fresh h) = \<lparr>line = 0, character = 0\<rparr>"
      "validatePosition buffer h' (Pos (fresh h)) = Inr (h', fresh h)"
      using validatePosition_changed [of buffer h p 0 0] neg by (auto simp: clamp_negative_line)
    moreover have "\<not> in_bounds ?ls (deref h p)" using neg by (simp add: in_bounds_def)
    ultimately show ?thesis using neg n by auto
  next
    case beyond
    have "nat (int (length ?ls) - 1) = length ?ls - 1" by simp
    then have "in_bounds ?ls \<lparr>line = int (length ?ls) - 1, character = int (length (last ?ls))\<rparr>"
      using n assms by (simp add: in_bounds_def last_conv_nth)
    then obtain h' where "validatePosition buffer h (Pos p) = Inr (h', fresh h)"
      "deref h' (fresh h) = \<lparr>line = int (length ?ls) - 1, character = int (length (last ?ls))\<rparr>"
      "validatePosition buffer h' (Pos (fresh h)) = Inr (h', fresh h)"
      using validatePosition_changed [of buffer h p "int (length ?ls) - 1" "int (length (last ?ls))"]
        beyond assms n
      by (auto simp: clamp_beyond_last)
    moreover have "\<not> in_bounds ?ls (deref h p)" using beyond by (simp add: in_bounds_def)
    ultimately show ?thesis using beyond by auto
  next
    case cneg
    have "in_bounds ?ls \<lparr>line = ?l, character = 0\<rparr>"
      using cneg by (simp add: in_bounds_def)
    then obtain h' where "validatePosition buffer h (Pos p) = Inr (h', fresh h)"
      "deref h' (fresh h) = \<lparr>line = ?l, character = 0\<rparr>"
      "validatePosition buffer h' (Pos (fresh h)) = Inr (h', fresh h)"
      using validatePosition_changed [of buffer h p ?l 0] cneg
      by (auto simp: clamp_negative_character)
    moreover have "\<not> in_bounds ?ls (deref h p)" using cneg by (simp add: in_bounds_def)
    ultimately show ?thesis using cneg by auto
  next
    case cbig
    have "in_bounds ?ls \<lparr>line = ?l, character = int (length (?ls ! nat ?l))\<rparr>"
      using cbig by (simp add: in_bounds_def)
    then obtain h' where "validatePosition buffer h (Pos p) = Inr (h', fresh h)"
      "deref h' (fresh h) = \<lparr>line = ?l, character = int (length (?ls ! nat ?l))\<rparr>"
      "validatePosition buffer h' (Pos (fresh h)) = Inr (h', fresh h)"
      using validatePosition_changed [of buffer h p ?l "int (length (?ls ! nat ?l))"] cbig
      by (auto simp: clamp_beyond_line)
    moreover have "\<not> in_bounds ?ls (deref h p)" using cbig by (simp add: in_bounds_def)
    ultimately show ?thesis using cbig by auto
  next
    case ok
    then have "in_bounds ?ls (deref h p)" by (simp add: in_bounds_def)
    then have "validatePosition buffer h (Pos p) = Inr (h, p)"
      by (rule validatePosition_in_bounds)
    then show ?thesis using ok by auto
  qed
qed


theorem validatePosition_clamps_witness:
  "getLines abc_def_buffer \<noteq> [] \<and>
   (\<exists>h'. validatePosition abc_def_buffer two_positions (Pos 0) = Inr (h', 2) \<and>
         deref h' 2 = \<lparr>line = 1, character = 3\<rparr> \<and>
         validatePosition abc_def_buffer h' (Pos 2) = Inr (h', 2))"
proof -
  have lines: "getLines abc_def_buffer = [''abc'', ''def'']"
    by (simp add: abc_def_buffer_def text_buffer_def getLines_buffer_of split_lines_abc_def)
  then have nonempty: "getLines abc_def_buffer \<noteq> []" by simp
  have beyond: "int (length (getLines abc_def_buffer)) \<le> line (deref two_positions 0)"
    by (simp add: lines two_positions_def)
  have first: "\<exists>h'. validatePosition abc_def_buffer two_positions (Pos 0) = Inr (h', 2)"
    by (simp add: validatePosition_def clamp_def new_Position_def alloc_def lines two_positions_def)
  show ?thesis
    using validatePosition_clamps [OF nonempty, of two_positions 0] beyond first nonempty
    by (auto simp: lines)
qed

subsection \<open>Version\<close>

lemma notify_all_snoc: "notify_all d (es @ [e]) = notify (notify_all d es) e"
  by (simp add: notify_all_def)

lemma listener_kept:
  "DidDestroy \<notin> set es \<Longrightarrow> changeListener (notify_all d es) = changeListener d"
proof (induction es rule: rev_induct)
  case Nil
  then show ?case by (simp add: notify_all_def)
next
  case (snoc e es)
  then show ?case by (cases e) (simp_all add: notify_all_snoc)
qed

lemma notify_version_le: "version d \<le> version (notify d e)"
  by (cases e) simp_all

text \<open>
  C9. The version is 1 after construction. Every change notification that reaches the
  listener adds one, so after any notifications without a destruction a further change
  gives a strictly greater version; and no notification ever lowers the version.
\<close>

theorem version_strictly_increases:
  "version new_AtomTextDocument = 1 \<and>
   (DidDestroy \<notin> set es \<longrightarrow>
      version (notify_all new_AtomTextDocument es)
        < version (notify_all new_AtomTextDocument (es @ [DidChange]))) \<and>
   (changeListener d \<longrightarrow> version (notify d DidChange) = version d + 1) \<and>
   version d \<le> version (notify d e)"
proof -
  have "DidDestroy \<notin> set es \<longrightarrow> changeListener (notify_all new_AtomTextDocument es)"
    using listener_kept [of es new_AtomTextDocument] by (simp add: new_AtomTextDocument_def)
  then have "DidDestroy \<notin> set es \<longrightarrow>
      version (notify_all new_AtomTextDocument es)
        < version (notify_all new_AtomTextDocument (es @ [DidChange]))"
    by (simp add: notify_all_snoc)
  then show ?thesis
    using notify_version_le by (simp add: new_AtomTextDocument_def)
qed

theorem version_strictly_increases_witness:
  "DidDestroy \<notin> set [DidChange, DidSave] \<and>
   version (notify_all new_AtomTextDocument [DidChange, DidSave]) = 2 \<and>
   version (notify_all new_AtomTextDocument ([DidChange, DidSave] @ [DidChange])) = 3 \<and>
   changeListener new_AtomTextDocument \<and>
   version (notify new_AtomTextDocument DidChange) = 2"
  using version_strictly_increases [of "[DidChange, DidSave]" new_AtomTextDocument DidChange]
  by (simp add: new_AtomTextDocument_def notify_all_def)

subsection \<open>save\<close>

lemma save_notify_not_false:
  "promise s \<noteq> Resolved False \<Longrightarrow> promise (save_notify s e) \<noteq> Resolved False"
  by (cases e; cases "promise s") (simp_all add: resolve_def)

lemma foldl_save_notify_not_false:
  "promise s \<noteq> Resolved False \<Longrightarrow> promise (foldl save_notify s es) \<noteq> Resolved False"
  by (induction es arbitrary: s) (simp_all add: save_notify_not_false)

lemma reject_not_false: "p \<noteq> Resolved False \<Longrightarrow> reject e p \<noteq> Resolved False"
  by (cases p) (simp_all add: reject_def)

lemma save_not_false: "promise (save during thrown after) \<noteq> Resolved False"
proof -
  let ?s1 = "foldl save_notify \<lparr>promise = Pending, saveListener = True\<rparr> during"
  have 1: "promise ?s1 \<noteq> Resolved False"
    by (rule foldl_save_notify_not_false) simp
  show ?thesis
  proof (cases thrown)
    case None
    then show ?thesis using 1 by (simp add: save_def foldl_save_notify_not_false)
  next
    case (Some e)
    have "promise (?s1\<lparr>promise := reject e (promise ?s1)\<rparr>) \<noteq> Resolved False"
      using reject_not_false [OF 1, of e] by simp
    then have "promise (foldl save_notify (?s1\<lparr>promise := reject e (promise ?s1)\<rparr>) after)
        \<noteq> Resolved False"
      by (rule foldl_save_notify_not_false)
    then show ?thesis using Some by (simp add: save_def Let_def)
  qed
qed

text \<open>
  C6. Whatever the host does, the promise of \<^verbatim>\<open>save()\<close> is never resolved with
  \<^verbatim>\<open>false\<close>. When the save does not occur (no notification, no exception) the
  promise stays pending; when \<^verbatim>\<open>editor.save()\<close> throws, the promise is rejected
  with that exception; a save notification resolves it with \<^verbatim>\<open>true\<close>.
\<close>

theorem save_never_resolves_false:
  "promise (save during thrown after) \<noteq> Resolved False \<and>
   promise (save [] None []) = Pending \<and>
   promise (save [] (Some e) []) = Rejected e \<and>
   promise (save [] None [DidSave]) = Resolved True"
  using save_not_false by (simp add: save_def resolve_def reject_def)

subsection \<open>offsetAt and positionAt\<close>





text \<open>
  The source of \<^verbatim>\<open>offsetAt\<close> does not call \<^verbatim>\<open>validatePosition\<close>: it converts
  the position and asks the host. On the host that clips, the answer is the flat offset
  of the clipped point.
\<close>

lemma offsetAt_delegates:
  "offsetAt buffer h p = characterIndexForPosition buffer (convertFromPosition (deref h p))"
  by (simp add: offsetAt_def)





lemma abc_def_offset:
  assumes "in_bounds [''abc'', ''def''] pos"
  shows "valid_point [''abc'', ''def''] (convertFromPosition pos) \<and>
         flat_offset [''abc'', ''def''] (convertFromPosition pos) = 4 * line pos + character pos"
proof -
  have "line pos = 0 \<or> line pos = 1" using assms by (auto simp: in_bounds_def)
  then show ?thesis
    using assms by (auto simp: in_bounds_def valid_point_def flat_offset_def convertFromPosition_def)
qed

lemma abc_def_point:
  assumes "0 \<le> off" "off \<le> 7"
  shows "point_at [''abc'', ''def''] 0 off = \<lparr>row = off div 4, column = off mod 4\<rparr>"
proof -
  have "off = 0 \<or> off = 1 \<or> off = 2 \<or> off = 3 \<or> off = 4 \<or> off = 5 \<or> off = 6 \<or> off = 7"
    using assms by linarith
  then show ?thesis by auto
qed

text \<open>
  C3. On the document \<^verbatim>\<open>"abc\ndef"\<close>, with the host's conversions as the
  specification describes them: for a position in bounds, \<^verbatim>\<open>positionAt\<close> of its
  offset is a position equal to it; for an offset from 0 to 7, \<^verbatim>\<open>positionAt\<close>
  gives a position in bounds whose offset is the given one.
\<close>

theorem abc_def_round_trip:
  "(in_bounds (getLines (buffer_of outside abc_def)) (deref h p) \<longrightarrow>
      (\<exists>off h' q. offsetAt (buffer_of outside abc_def) h p = Inr off \<and>
                  positionAt (buffer_of outside abc_def) h off = Inr (h', q) \<and>
                  isEqual (deref h' q) (deref h p))) \<and>
   (0 \<le> off \<and> off \<le> 7 \<longrightarrow>
      (\<exists>h' q. positionAt (buffer_of outside abc_def) h off = Inr (h', q) \<and>
              in_bounds (getLines (buffer_of outside abc_def)) (deref h' q) \<and>
              offsetAt (buffer_of outside abc_def) h' q = Inr off))"
proof -
  let ?B = "buffer_of outside abc_def"
  have from_position: "\<exists>off h' q. offsetAt ?B h p = Inr off \<and> positionAt ?B h off = Inr (h', q) \<and>
                  isEqual (deref h' q) (deref h p)"
    if b: "in_bounds (getLines ?B) (deref h p)"
  proof -
    have b': "in_bounds [''abc'', ''def''] (deref h p)"
      using b by (simp add: getLines_buffer_of split_lines_abc_def)
    let ?off = "4 * line (deref h p) + character (deref h p)"
    have l: "line (deref h p) = 0 \<or> line (deref h p) = 1"
      using b' by (auto simp: in_bounds_def)
    have c: "0 \<le> character (deref h p)" "character (deref h p) \<le> 3"
      using b' l by (auto simp: in_bounds_def)
    have o: "offsetAt ?B h p = Inr ?off"
      using abc_def_offset [OF b'] by (simp add: offsetAt_def buffer_of_def split_lines_abc_def)
    have range: "0 \<le> ?off" "?off \<le> 7" using l c by auto
    have dm: "?off div 4 = line (deref h p)" "?off mod 4 = character (deref h p)"
      using l c by auto
    have "positionForCharacterIndex ?B ?off = \<lparr>row = line (deref h p), column = character (deref h p)\<rparr>"
      using abc_def_point [OF range] range dm by (simp add: buffer_of_def split_lines_abc_def)
    then have "\<exists>h' q. positionAt ?B h ?off = Inr (h', q) \<and> isEqual (deref h' q) (deref h p)"
      using l c by (auto simp: positionAt_def convertToPosition_def new_Position_def alloc_def isEqual_def)
    then show ?thesis using o by blast
  qed
  have from_offset: "\<exists>h' q. positionAt ?B h off = Inr (h', q) \<and> in_bounds (getLines ?B) (deref h' q) \<and>
              offsetAt ?B h' q = Inr off"
    if r: "0 \<le> off \<and> off \<le> 7"
  proof -
    have r': "0 \<le> off" "off \<le> 7" using r by auto
    let ?pos = "\<lparr>line = off div 4, character = off mod 4\<rparr>"
    let ?h' = "fst (alloc h ?pos)"
    have pt: "positionForCharacterIndex ?B off = \<lparr>row = off div 4, column = off mod 4\<rparr>"
      using abc_def_point [OF r'] r' by (simp add: buffer_of_def split_lines_abc_def)
    have nonneg: "0 \<le> off div 4" "0 \<le> off mod 4" using r' by auto
    have p: "positionAt ?B h off = Inr (?h', fresh h)"
      using pt nonneg by (simp add: positionAt_def convertToPosition_def new_Position_def alloc_def)
    have d: "deref ?h' (fresh h) = ?pos" by (simp add: alloc_def)
    have "off = 0 \<or> off = 1 \<or> off = 2 \<or> off = 3 \<or> off = 4 \<or> off = 5 \<or> off = 6 \<or> off = 7"
      using r' by linarith
    then have b: "in_bounds [''abc'', ''def''] ?pos"
      by (auto simp: in_bounds_def)
    have "offsetAt ?B ?h' (fresh h) = Inr (4 * (off div 4) + off mod 4)"
      using abc_def_offset [OF b] d by (simp add: offsetAt_def buffer_of_def split_lines_abc_def)
    then have "offsetAt ?B ?h' (fresh h) = Inr off" by simp
    then show ?thesis
      using p b d by (auto simp: getLines_buffer_of split_lines_abc_def)
  qed
  show ?thesis using from_position from_offset by blast
qed

theorem abc_def_round_trip_witness:
  "in_bounds (getLines abc_def_buffer) (deref two_positions 1) \<and>
   offsetAt abc_def_buffer two_positions 1 = Inr 6 \<and>
   (\<exists>h' q. positionAt abc_def_buffer two_positions 6 = Inr (h', q) \<and>
           deref h' q = \<lparr>line = 1, character = 2\<rparr> \<and>
           offsetAt abc_def_buffer h' q = Inr 6)"
  using abc_def_round_trip
    [of "\<lambda>pt. Inr (flat_offset (split_lines abc_def) (clipPosition (split_lines abc_def) pt))"
      two_positions 1 6]
  by (simp add: abc_def_buffer_def text_buffer_def offsetAt_def positionAt_def convertToPosition_def
      convertFromPosition_def new_Position_def alloc_def buffer_of_def split_lines_abc_def
      two_positions_def valid_point_def flat_offset_def in_bounds_def)

section \<open>Properties of WorkspaceEdit\<close>

lemma index_new: "index' new_WorkspaceEdit k = None"
  by (simp add: new_WorkspaceEdit_def)

lemma values_new: "values' new_WorkspaceEdit = []"
  by (simp add: new_WorkspaceEdit_def)

lemma index_ok_new: "index_ok new_WorkspaceEdit"
  unfolding index_ok_def index_new values_new by simp

lemma index_ok_distinct:
  assumes "index_ok w"
  shows "distinct (keys w)"
proof -
  have "i = j" if "i < length (values' w)" "j < length (values' w)"
    "key (values' w ! i) = key (values' w ! j)" for i j
  proof -
    have "index' w (key (values' w ! i)) = Some i" "index' w (key (values' w ! j)) = Some j"
      using assms that(1,2) unfolding index_ok_def by blast+
    then show ?thesis using that(3) by (metis option.inject)
  qed
  then show ?thesis
    by (auto simp: keys_def distinct_conv_nth)
qed

lemma has_iff_key:
  assumes "index_ok w"
  shows "has w u \<longleftrightarrow> toString u \<in> set (keys w)"
proof
  assume "has w u"
  then obtain i where "index' w (toString u) = Some i" by (auto simp: has_def)
  then have i: "i < length (values' w)" and k: "key (values' w ! i) = toString u"
    using assms unfolding index_ok_def by blast+
  have "key (values' w ! i) \<in> set (map key (values' w))"
    using i by simp
  then show "toString u \<in> set (keys w)"
    unfolding keys_def k .
next
  assume "toString u \<in> set (keys w)"
  then obtain e where e: "e \<in> set (values' w)" and k: "key e = toString u"
    unfolding keys_def by auto
  from e obtain i where i: "i < length (values' w)" and v: "values' w ! i = e"
    unfolding in_set_conv_nth by blast
  have "index' w (key (values' w ! i)) = Some i"
    using assms i unfolding index_ok_def by blast
  then have "index' w (toString u) = Some i" unfolding v k .
  then show "has w u" by (simp add: has_def)
qed

lemma get_absent: "\<not> has w u \<Longrightarrow> get w u = Inr False'"
  by (simp add: has_def get_def)

lemma get_present:
  assumes "index_ok w" "has w u"
  shows "\<exists>i. index' w (toString u) = Some i \<and> i < length (values' w) \<and>
             key (values' w ! i) = toString u \<and> get w u = Inr (Array (snd (values' w ! i)))"
proof -
  obtain i where i: "index' w (toString u) = Some i" using assms(2) by (auto simp: has_def)
  then have "i < length (values' w)" "key (values' w ! i) = toString u"
    using assms(1) unfolding index_ok_def by blast+
  then show ?thesis using i by (simp add: get_def)
qed

lemma set'_absent:
  assumes ok: "index_ok w" and absent: "\<not> has w u"
  shows "\<exists>w'. set' w u a = Inr w' \<and> index_ok w' \<and> keys w' = keys w @ [toString u] \<and>
              get w' u = Inr (Array a) \<and> has w' u"
proof -
  let ?n = "length (values' w)"
  let ?vs = "values' w @ [(u, a)]" and ?ix = "(index' w)(toString u \<mapsto> ?n)"
  let ?w' = "w\<lparr>values' := ?vs, index' := ?ix\<rparr>"
  have none: "index' w (toString u) = None" using absent by (simp add: has_def)
  have s: "set' w u a = Inr ?w'" using none by (simp add: set'_def)
  have vs: "values' ?w' = ?vs" and ix: "index' ?w' = ?ix" by simp_all
  have last: "?vs ! ?n = (u, a)" by simp
  have 1: "i < length ?vs \<and> key (?vs ! i) = k" if "?ix k = Some i" for k i
  proof (cases "k = toString u")
    case True
    then have "i = ?n" using that by simp
    then show ?thesis using True last by (simp add: key_def)
  next
    case False
    then have "index' w k = Some i" using that by simp
    then have "i < ?n" "key (values' w ! i) = k" using ok unfolding index_ok_def by blast+
    then show ?thesis by (simp add: nth_append)
  qed
  have 2: "?ix (key (?vs ! i)) = Some i" if "i < length ?vs" for i
  proof (cases "i < ?n")
    case True
    then have e: "index' w (key (values' w ! i)) = Some i" using ok unfolding index_ok_def by blast+
    then have "key (values' w ! i) \<noteq> toString u" using none by auto
    then show ?thesis using True e by (simp add: nth_append)
  next
    case False
    then have "i = ?n" using that by simp
    then show ?thesis using last by (simp add: key_def)
  qed
  have ok': "index_ok ?w'" unfolding index_ok_def vs ix using 1 2 by blast
  have k: "keys ?w' = keys w @ [toString u]" unfolding keys_def vs by (simp add: key_def)
  have g: "get ?w' u = Inr (Array a)" unfolding get_def ix vs by simp
  have h: "has ?w' u" unfolding has_def ix by simp
  show ?thesis using s ok' k g h by blast
qed

lemma set'_present:
  assumes ok: "index_ok w" and present: "has w u"
  shows "\<exists>w'. set' w u a = Inr w' \<and> index_ok w' \<and> keys w' = keys w \<and>
              get w' u = Inr (Array a) \<and> has w' u"
proof -
  obtain i where i: "index' w (toString u) = Some i" "i < length (values' w)"
    "key (values' w ! i) = toString u"
    using get_present [OF ok present] by blast
  let ?vs = "(values' w)[i := (fst (values' w ! i), a)]"
  let ?w' = "w\<lparr>values' := ?vs\<rparr>"
  have s: "set' w u a = Inr ?w'" using i by (simp add: set'_def)
  have vs: "values' ?w' = ?vs" and ix: "index' ?w' = index' w" by simp_all
  have len: "length ?vs = length (values' w)" by simp
  have same: "key (?vs ! j) = key (values' w ! j)" if "j < length (values' w)" for j
  proof (cases "j = i")
    case True
    then show ?thesis using that by (simp add: key_def)
  next
    case False
    then show ?thesis by simp
  qed
  have ok': "index_ok ?w'"
    unfolding index_ok_def vs ix len using ok same unfolding index_ok_def by metis
  have "map key ?vs = map key (values' w)"
    using same by (intro nth_equalityI) simp_all
  then have k: "keys ?w' = keys w" unfolding keys_def vs .
  have g: "get ?w' u = Inr (Array a)" unfolding get_def ix vs using i by simp
  have h: "has ?w' u" unfolding has_def ix using i by simp
  show ?thesis using s ok' k g h by blast
qed


lemma size_keys: "size' w = length (keys w)"
  by (simp add: size'_def keys_def)

lemma replace_present:
  assumes "index_ok w" "has w u"
  shows "\<exists>b. get w u = Inr (Array b) \<and>
             replace (A, w) u r t =
               Inr (A\<lparr>cells := (cells A)(b := cells A b @ [new_TextEdit r t])\<rparr>, w)"
proof -
  obtain b where "get w u = Inr (Array b)"
    using get_present [OF assms] by blast
  then show ?thesis by (simp add: replace_def)
qed

lemma replace_absent:
  assumes "index_ok w" "\<not> has w u"
  shows "\<exists>w'. replace (A, w) u r t = Inr (fst (alloc A [new_TextEdit r t]), w') \<and>
              index_ok w' \<and> keys w' = keys w @ [toString u] \<and> has w' u \<and>
              get w' u = Inr (Array (fresh A))"
proof -
  obtain w' where w': "set' w u (fresh A) = Inr w'" "index_ok w'"
    "keys w' = keys w @ [toString u]" "get w' u = Inr (Array (fresh A))" "has w' u"
    using set'_absent [OF assms] by blast
  have "replace (A, w) u r t = Inr (fst (alloc A [new_TextEdit r t]), w')"
    using get_absent [OF assms(2)] w'(1) by (simp add: replace_def alloc_def)
  then show ?thesis using w' by blast
qed

lemma cells_alloc: "cells (fst (alloc A v)) (fresh A) = v"
  by (simp add: alloc_def)

lemma set'_ok:
  assumes "index_ok w"
  shows "\<exists>w'. set' w u a = Inr w' \<and> index_ok w' \<and>
              set (keys w') = insert (toString u) (set (keys w)) \<and>
              get w' u = Inr (Array a) \<and> has w' u"
proof (cases "has w u")
  case True
  then obtain w' where w': "set' w u a = Inr w'" "index_ok w'" "keys w' = keys w"
    "get w' u = Inr (Array a)" "has w' u"
    using set'_present [OF assms] by blast
  have "toString u \<in> set (keys w)" using True has_iff_key [OF assms] by simp
  then have "set (keys w') = insert (toString u) (set (keys w))"
    unfolding w'(3) by blast
  then show ?thesis using w' by blast
next
  case False
  then obtain w' where w': "set' w u a = Inr w'" "index_ok w'" "keys w' = keys w @ [toString u]"
    "get w' u = Inr (Array a)" "has w' u"
    using set'_absent [OF assms] by blast
  have "set (keys w') = insert (toString u) (set (keys w))"
    unfolding w'(3) by simp
  then show ?thesis using w' by blast
qed

lemma replace_ok:
  assumes "index_ok w"
  shows "\<exists>A' w'. replace (A, w) u r t = Inr (A', w') \<and> index_ok w' \<and>
              set (keys w') = insert (toString u) (set (keys w))"
proof (cases "has w u")
  case True
  have "toString u \<in> set (keys w)" using True has_iff_key [OF assms] by simp
  then have "set (keys w) = insert (toString u) (set (keys w))" by blast
  then show ?thesis using replace_present [OF assms True, of A r t] assms by metis
next
  case False
  obtain w' where w': "replace (A, w) u r t = Inr (fst (alloc A [new_TextEdit r t]), w')"
    "index_ok w'" "keys w' = keys w @ [toString u]"
    using replace_absent [OF assms False] by blast
  have "set (keys w') = insert (toString u) (set (keys w))"
    unfolding w'(3) by simp
  then show ?thesis using w' by blast
qed

lemma apply_call_ok:
  assumes "index_ok w"
  shows "\<exists>A' w'. apply_call h (A, w) c = Inr (A', w') \<and> index_ok w' \<and>
              set (keys w') = insert (toString (call_uri c)) (set (keys w))"
proof (cases c)
  case (Set u a)
  obtain w' where "set' w u a = Inr w'" "index_ok w'"
    "set (keys w') = insert (toString u) (set (keys w))"
    using set'_ok [OF assms] by blast
  then show ?thesis using Set by simp
next
  case (Replace u r t)
  then show ?thesis using replace_ok [OF assms] by simp
next
  case (Insert u p t)
  then show ?thesis using replace_ok [OF assms] by (simp add: insert'_def)
next
  case (Delete u r)
  then show ?thesis using replace_ok [OF assms] by (simp add: delete'_def)
qed

lemma run_ok:
  assumes "index_ok w"
  shows "\<exists>A' w'. run h (A, w) cs = Inr (A', w') \<and> index_ok w' \<and>
              set (keys w') = set (keys w) \<union> touched cs"
  using assms
proof (induction cs arbitrary: A w)
  case Nil
  then show ?case by (simp add: touched_def)
next
  case (Cons c cs)
  obtain A1 w1 where 1: "apply_call h (A, w) c = Inr (A1, w1)" "index_ok w1"
    "set (keys w1) = insert (toString (call_uri c)) (set (keys w))"
    using apply_call_ok [OF Cons.prems] by blast
  obtain A2 w2 where 2: "run h (A1, w1) cs = Inr (A2, w2)" "index_ok w2"
    "set (keys w2) = set (keys w1) \<union> touched cs"
    using Cons.IH [OF 1(2)] by blast
  have "run h (A, w) (c # cs) = Inr (A2, w2)" using 1(1) 2(1) by simp
  moreover have "set (keys w2) = set (keys w) \<union> touched (c # cs)"
    unfolding 2(3) 1(3) by (auto simp: touched_def)
  ultimately show ?case using 2(2) by blast
qed

lemma run_from_new:
  "\<exists>A w. run h (A0, new_WorkspaceEdit) cs = Inr (A, w) \<and> index_ok w \<and>
          set (keys w) = touched cs"
proof -
  have "keys new_WorkspaceEdit = []" by (simp add: keys_def values_new)
  then show ?thesis using run_ok [OF index_ok_new, of h A0 cs] by simp
qed


lemma two_replaces_absent:
  assumes "index_ok w" "\<not> has w u"
  shows "\<exists>b A2 w2. run h (A, w) [Replace u r t, Replace u r2 t2] = Inr (A2, w2) \<and>
           get w2 u = Inr (Array b) \<and>
           cells A2 b = [new_TextEdit r t, new_TextEdit r2 t2] \<and>
           size' w2 = size' w + 1"
proof -
  let ?A1 = "fst (alloc A [new_TextEdit r t])"
  obtain w1 where w1: "replace (A, w) u r t = Inr (?A1, w1)" "index_ok w1"
    "keys w1 = keys w @ [toString u]" "has w1 u" "get w1 u = Inr (Array (fresh A))"
    using replace_absent [OF assms] by blast
  obtain b where b: "get w1 u = Inr (Array b)"
    "replace (?A1, w1) u r2 t2 =
       Inr (?A1\<lparr>cells := (cells ?A1)(b := cells ?A1 b @ [new_TextEdit r2 t2])\<rparr>, w1)"
    using replace_present [OF w1(2,4)] by blast
  have eq: "b = fresh A" using b(1) w1(5) by simp
  let ?A2 = "?A1\<lparr>cells := (cells ?A1)(b := cells ?A1 b @ [new_TextEdit r2 t2])\<rparr>"
  have "run h (A, w) [Replace u r t, Replace u r2 t2] = Inr (?A2, w1)"
    using w1(1) b(2) by simp
  moreover have "cells ?A2 b = [new_TextEdit r t, new_TextEdit r2 t2]"
    unfolding eq by (simp add: cells_alloc)
  moreover have "size' w1 = size' w + 1"
    unfolding size_keys w1(3) by simp
  ultimately show ?thesis using b(1) by blast
qed

lemma two_replaces_present:
  assumes "index_ok w" "has w u"
  shows "\<exists>b A2. get w u = Inr (Array b) \<and>
           run h (A, w) [Replace u r t, Replace u r2 t2] = Inr (A2, w) \<and>
           cells A2 b = cells A b @ [new_TextEdit r t, new_TextEdit r2 t2]"
proof -
  obtain b where b: "get w u = Inr (Array b)"
    "replace (A, w) u r t = Inr (A\<lparr>cells := (cells A)(b := cells A b @ [new_TextEdit r t])\<rparr>, w)"
    using replace_present [OF assms] by blast
  let ?A1 = "A\<lparr>cells := (cells A)(b := cells A b @ [new_TextEdit r t])\<rparr>"
  obtain b' where b': "get w u = Inr (Array b')"
    "replace (?A1, w) u r2 t2 =
       Inr (?A1\<lparr>cells := (cells ?A1)(b' := cells ?A1 b' @ [new_TextEdit r2 t2])\<rparr>, w)"
    using replace_present [OF assms] by blast
  have eq: "b' = b" using b(1) b'(1) by simp
  let ?A2 = "?A1\<lparr>cells := (cells ?A1)(b := cells ?A1 b @ [new_TextEdit r2 t2])\<rparr>"
  have "run h (A, w) [Replace u r t, Replace u r2 t2] = Inr (?A2, w)"
    using b(2) b'(2) unfolding eq by simp
  moreover have "cells ?A2 b = cells A b @ [new_TextEdit r t, new_TextEdit r2 t2]"
    by simp
  ultimately show ?thesis using b(1) by blast
qed

lemma entry_of_key:
  assumes "index_ok w" "has w u"
  shows "\<exists>e \<in> set (entries w). toString (fst e) = toString u \<and> get w u = Inr (Array (snd e))"
proof -
  obtain i where i: "i < length (values' w)" "key (values' w ! i) = toString u"
    "get w u = Inr (Array (snd (values' w ! i)))"
    using get_present [OF assms] by blast
  have "values' w ! i \<in> set (entries w)" using i(1) by (simp add: entries_def)
  then show ?thesis using i(2,3) unfolding key_def by blast
qed

text \<open>
  C8. After any sequence of calls on a new \<^verbatim>\<open>WorkspaceEdit\<close> (none of them
  throws): the entries have pairwise distinct keys, and \<^verbatim>\<open>size\<close> is the number
  of distinct keys the calls touched. In such a state, \<^verbatim>\<open>set\<close> on a key that is
  present makes its entry the given array and leaves \<^verbatim>\<open>size\<close> unchanged;
  \<^verbatim>\<open>replace\<close> on a key that is present pushes the new edit onto the stored array,
  and on a key that is absent adds an entry with a new array holding that edit;
  \<^verbatim>\<open>insert\<close> and \<^verbatim>\<open>delete\<close> are \<^verbatim>\<open>replace\<close> on the empty range
  at the position and with the empty text; two calls of \<^verbatim>\<open>replace\<close> for one
  resource leave one entry whose array ends with the two edits in call order.
\<close>

theorem WorkspaceEdit_one_sequence_per_key:
  "\<exists>A w. run h (A0, new_WorkspaceEdit) cs = Inr (A, w) \<and>
     distinct (map (\<lambda>e. toString (fst e)) (entries w)) \<and>
     size' w = card (touched cs) \<and>
     (has w u \<longrightarrow>
        (\<exists>w'. set' w u a = Inr w' \<and> get w' u = Inr (Array a) \<and> size' w' = size' w)) \<and>
     (has w u \<longrightarrow>
        (\<exists>b A'. get w u = Inr (Array b) \<and> replace (A, w) u r t = Inr (A', w) \<and>
                cells A' b = cells A b @ [new_TextEdit r t])) \<and>
     (\<not> has w u \<longrightarrow>
        (\<exists>b A' w'. replace (A, w) u r t = Inr (A', w') \<and> get w' u = Inr (Array b) \<and>
                   cells A' b = [new_TextEdit r t] \<and> size' w' = size' w + 1)) \<and>
     insert' h (A, w) u p t = replace (A, w) u \<lparr>start = p, end' = p\<rparr> t \<and>
     delete' (A, w) u r = replace (A, w) u r [] \<and>
     (has w u \<longrightarrow>
        (\<exists>b A2. get w u = Inr (Array b) \<and>
                run h (A, w) [Replace u r t, Replace u r2 t2] = Inr (A2, w) \<and>
                cells A2 b = cells A b @ [new_TextEdit r t, new_TextEdit r2 t2])) \<and>
     (\<not> has w u \<longrightarrow>
        (\<exists>b A2 w2. run h (A, w) [Replace u r t, Replace u r2 t2] = Inr (A2, w2) \<and>
                   get w2 u = Inr (Array b) \<and>
                   cells A2 b = [new_TextEdit r t, new_TextEdit r2 t2] \<and>
                   size' w2 = size' w + 1))"
proof -
  obtain A w where run: "run h (A0, new_WorkspaceEdit) cs = Inr (A, w)" and ok: "index_ok w"
    and ks: "set (keys w) = touched cs"
    using run_from_new by blast
  have d: "distinct (keys w)" using ok by (rule index_ok_distinct)
  then have 1: "distinct (map (\<lambda>e. toString (fst e)) (entries w))"
    unfolding keys_def entries_def key_def [abs_def] .
  have 2: "size' w = card (touched cs)"
    unfolding size_keys ks [symmetric] using d by (simp add: distinct_card)
  have 3: "has w u \<longrightarrow>
        (\<exists>w'. set' w u a = Inr w' \<and> get w' u = Inr (Array a) \<and> size' w' = size' w)"
  proof
    assume "has w u"
    then obtain w' where "set' w u a = Inr w'" "keys w' = keys w" "get w' u = Inr (Array a)"
      using set'_present [OF ok] by blast
    then show "\<exists>w'. set' w u a = Inr w' \<and> get w' u = Inr (Array a) \<and> size' w' = size' w"
      unfolding size_keys by auto
  qed
  have 4: "has w u \<longrightarrow>
        (\<exists>b A'. get w u = Inr (Array b) \<and> replace (A, w) u r t = Inr (A', w) \<and>
                cells A' b = cells A b @ [new_TextEdit r t])"
  proof
    assume "has w u"
    then obtain b where "get w u = Inr (Array b)"
      "replace (A, w) u r t = Inr (A\<lparr>cells := (cells A)(b := cells A b @ [new_TextEdit r t])\<rparr>, w)"
      using replace_present [OF ok] by blast
    then show "\<exists>b A'. get w u = Inr (Array b) \<and> replace (A, w) u r t = Inr (A', w) \<and>
                cells A' b = cells A b @ [new_TextEdit r t]"
      by auto
  qed
  have 5: "\<not> has w u \<longrightarrow>
        (\<exists>b A' w'. replace (A, w) u r t = Inr (A', w') \<and> get w' u = Inr (Array b) \<and>
                   cells A' b = [new_TextEdit r t] \<and> size' w' = size' w + 1)"
  proof
    assume "\<not> has w u"
    then obtain w' where "replace (A, w) u r t = Inr (fst (alloc A [new_TextEdit r t]), w')"
      "keys w' = keys w @ [toString u]" "get w' u = Inr (Array (fresh A))"
      using replace_absent [OF ok] by blast
    then show "\<exists>b A' w'. replace (A, w) u r t = Inr (A', w') \<and> get w' u = Inr (Array b) \<and>
                   cells A' b = [new_TextEdit r t] \<and> size' w' = size' w + 1"
      unfolding size_keys using cells_alloc [of A "[new_TextEdit r t]"] by auto
  qed
  have 6: "insert' h (A, w) u p t = replace (A, w) u \<lparr>start = p, end' = p\<rparr> t"
    by (simp add: insert'_def Range_ordered_def)
  have 7: "delete' (A, w) u r = replace (A, w) u r []"
    by (simp add: delete'_def)
  note 8 = two_replaces_present [OF ok, of u h A r t r2 t2]
  note 9 = two_replaces_absent [OF ok, of u h A r t r2 t2]
  show ?thesis
    using run 1 2 3 4 5 6 7 8 9 by blast
qed

theorem WorkspaceEdit_one_sequence_per_key_witness:
  "\<not> has new_WorkspaceEdit file_a \<and>
   (\<exists>b A w. run four_positions (no_arrays, new_WorkspaceEdit)
             [Replace file_a \<lparr>start = 0, end' = 1\<rparr> ''x'',
              Replace file_a \<lparr>start = 2, end' = 3\<rparr> ''y''] = Inr (A, w) \<and>
          get w file_a = Inr (Array b) \<and>
          cells A b = [new_TextEdit \<lparr>start = 0, end' = 1\<rparr> ''x'',
                       new_TextEdit \<lparr>start = 2, end' = 3\<rparr> ''y''] \<and>
          size' w = 1)"
proof -
  let ?two = "[Replace file_a \<lparr>start = 0, end' = 1\<rparr> ''x'',
               Replace file_a \<lparr>start = 2, end' = 3\<rparr> ''y'']"
  let ?edits = "[new_TextEdit \<lparr>start = 0, end' = 1\<rparr> ''x'',
                 new_TextEdit \<lparr>start = 2, end' = 3\<rparr> ''y'']"
  have absent: "\<not> has new_WorkspaceEdit file_a" by (simp add: has_def index_new)
  obtain A w where r: "run four_positions (no_arrays, new_WorkspaceEdit) [] = Inr (A, w)"
    and two: "\<not> has w file_a \<longrightarrow>
        (\<exists>b A2 w2. run four_positions (A, w) ?two = Inr (A2, w2) \<and>
                   get w2 file_a = Inr (Array b) \<and> cells A2 b = ?edits \<and>
                   size' w2 = size' w + 1)"
    using WorkspaceEdit_one_sequence_per_key [of four_positions no_arrays "[]" file_a 0
      "\<lparr>start = 0, end' = 1\<rparr>" "''x''" 0 "\<lparr>start = 2, end' = 3\<rparr>" "''y''"]
    by blast
  have start: "A = no_arrays" "w = new_WorkspaceEdit" using r by simp_all
  have "size' new_WorkspaceEdit + 1 = 1" by (simp add: size'_def values_new)
  then show ?thesis using absent two unfolding start by metis
qed

text \<open>
  C10. After any sequence of calls on a new \<^verbatim>\<open>WorkspaceEdit\<close>: for a resource
  whose key no call touched, \<^verbatim>\<open>get\<close> returns the boolean \<^verbatim>\<open>false\<close> and
  \<^verbatim>\<open>has\<close> is false; for a resource whose key was touched, \<^verbatim>\<open>has\<close> is true
  and \<^verbatim>\<open>get\<close> returns the array of the entry with that key; and after
  \<^verbatim>\<open>set(u, a)\<close>, \<^verbatim>\<open>get(u)\<close> is the array \<open>a\<close> itself.
\<close>

theorem get_false_when_absent:
  "\<exists>A w. run h (A0, new_WorkspaceEdit) cs = Inr (A, w) \<and>
     (toString u \<notin> touched cs \<longrightarrow> get w u = Inr False' \<and> \<not> has w u) \<and>
     (toString u \<in> touched cs \<longrightarrow>
        has w u \<and>
        (\<exists>e \<in> set (entries w). toString (fst e) = toString u \<and> get w u = Inr (Array (snd e)))) \<and>
     (\<exists>w'. set' w u a = Inr w' \<and> get w' u = Inr (Array a) \<and> has w' u)"
proof -
  obtain A w where run: "run h (A0, new_WorkspaceEdit) cs = Inr (A, w)" and ok: "index_ok w"
    and ks: "set (keys w) = touched cs"
    using run_from_new by blast
  have h: "has w u \<longleftrightarrow> toString u \<in> touched cs"
    using has_iff_key [OF ok] ks by simp
  have 1: "toString u \<notin> touched cs \<longrightarrow> get w u = Inr False' \<and> \<not> has w u"
    using h get_absent by blast
  have 2: "toString u \<in> touched cs \<longrightarrow>
        has w u \<and>
        (\<exists>e \<in> set (entries w). toString (fst e) = toString u \<and> get w u = Inr (Array (snd e)))"
    using h entry_of_key [OF ok] by blast
  have 3: "\<exists>w'. set' w u a = Inr w' \<and> get w' u = Inr (Array a) \<and> has w' u"
    using set'_ok [OF ok] by blast
  show ?thesis using run 1 2 3 by blast
qed


theorem get_false_when_absent_witness:
  "toString file_b \<notin> touched [Replace file_a \<lparr>start = 0, end' = 1\<rparr> ''x''] \<and>
   toString file_a \<in> touched [Replace file_a \<lparr>start = 0, end' = 1\<rparr> ''x''] \<and>
   (\<exists>A w. run four_positions (no_arrays, new_WorkspaceEdit)
             [Replace file_a \<lparr>start = 0, end' = 1\<rparr> ''x''] = Inr (A, w) \<and>
          get w file_b = Inr False' \<and> \<not> has w file_b) \<and>
   (\<exists>A w b. run four_positions (no_arrays, new_WorkspaceEdit)
             [Replace file_a \<lparr>start = 0, end' = 1\<rparr> ''x''] = Inr (A, w) \<and>
          has w file_a \<and> get w file_a = Inr (Array b))"
proof -
  let ?cs = "[Replace file_a \<lparr>start = 0, end' = 1\<rparr> ''x'']"
  have b: "toString file_b \<notin> touched ?cs"
    by (simp add: touched_def file_a_def file_b_def)
  have a: "toString file_a \<in> touched ?cs"
    by (simp add: touched_def)
  show ?thesis
    using get_false_when_absent [of four_positions no_arrays ?cs file_b 0]
      get_false_when_absent [of four_positions no_arrays ?cs file_a 0] a b
    by blast
qed

end
